theory Spec2Isabelle
  imports Main
begin

section \<open>The stub generator \<^verbatim>\<open>scripts/generate_stubs.py\<close>\<close>

text \<open>
  The script has two functions: \<^verbatim>\<open>create_stub_file(path, title)\<close>, which makes the
  parent directories of \<^verbatim>\<open>path\<close> and writes a five-line Markdown template to it, and
  \<^verbatim>\<open>main()\<close>, which calls it once for every name of three literal tables.
  Everything the script does is an effect on the file system, so the model is explicit
  state passing over a file-system state, with every exception of the Python as an
  \<open>Inl\<close> result next to the state reached when it was raised.

  Python strings are modelled as \<^typ>\<open>string\<close>, the list of their UTF-8 bytes.
  The file system is that of a POSIX system (Linux): one process, no symbolic links,
  no special files; permissions are one \<open>writable\<close> bit per node, and the device has a
  number of free bytes that file contents use up.
\<close>

subsection \<open>Path strings: \<^verbatim>\<open>posixpath\<close>\<close>

definition sep :: char where
  "sep = CHR ''/''"

definition all_sep :: "string \<Rightarrow> bool" where
  "all_sep p = (\<forall>c \<in> set p. c = sep)"

definition rstrip_sep :: "string \<Rightarrow> string" where
  "rstrip_sep p = rev (dropWhile (\<lambda>c. c = sep) (rev p))"

text \<open>
  \<^verbatim>\<open>posixpath.split(p)\<close>: \<^verbatim>\<open>i = p.rfind('/') + 1; head, tail = p[:i], p[i:]\<close>;
  then \<^verbatim>\<open>if head and head != '/' * len(head): head = head.rstrip('/')\<close>.
\<close>

definition path_split :: "string \<Rightarrow> string \<times> string" where
  "path_split p =
     (let tail = rev (takeWhile (\<lambda>c. c \<noteq> sep) (rev p));
          head = take (length p - length tail) p
      in (if head \<noteq> [] \<and> \<not> all_sep head then rstrip_sep head else head, tail))"

text \<open>\<^verbatim>\<open>os.path.dirname(p)\<close> is the head of \<^verbatim>\<open>split\<close>.\<close>

definition dirname :: "string \<Rightarrow> string" where
  "dirname p = fst (path_split p)"

text \<open>\<^verbatim>\<open>p.split('/')\<close>: the components between the separators, empty ones kept.\<close>

fun components :: "string \<Rightarrow> string list" where
  "components [] = [[]]"
| "components (c # cs) =
     (if c = sep then [] # components cs
      else (case components cs of
              x # xs \<Rightarrow> (c # x) # xs
            | [] \<Rightarrow> [[c]]))"

text \<open>\<^verbatim>\<open>'/'.join(parts)\<close>.\<close>

fun join_sep :: "string list \<Rightarrow> string" where
  "join_sep [] = []"
| "join_sep [x] = x"
| "join_sep (x # y # ys) = x @ sep # join_sep (y # ys)"

subsection \<open>The file system\<close>

text \<open>
  A node is a directory or a regular file with its bytes; the flag says whether the
  process may write to it (create an entry in the directory, open the file for
  writing). Nodes are stored under their absolute location, the list of names from the
  root; the root itself is the node at \<open>[]\<close>.
\<close>

datatype node = Dir bool | File bool string

type_synonym location = "string list"

record filesystem =
  nodes :: "location \<Rightarrow> node option"
  cwd :: location
  free :: nat

text \<open>The exceptions the script can meet, by their Python names.\<close>

datatype os_error =
    FileNotFoundError
  | FileExistsError
  | NotADirectoryError
  | IsADirectoryError
  | PermissionError
  | OSError_ENOSPC
  | ValueError

type_synonym 'a io = "filesystem \<Rightarrow> (os_error + 'a) \<times> filesystem"

text \<open>Sequencing: an exception ends the sequence and keeps the state it was raised in.\<close>

definition io_bind :: "'a io \<Rightarrow> ('a \<Rightarrow> 'b io) \<Rightarrow> 'b io" where
  "io_bind m k s = (case m s of (Inl e, s') \<Rightarrow> (Inl e, s') | (Inr x, s') \<Rightarrow> k x s')"

definition io_seq :: "unit io \<Rightarrow> 'b io \<Rightarrow> 'b io" where
  "io_seq m k = io_bind m (\<lambda>_. k)"

text \<open>
  Path resolution, from the directory \<open>cur\<close> along the components \<open>cs\<close>: every
  component is looked up in a directory; an empty component (from \<^verbatim>\<open>//\<close>) and \<^verbatim>\<open>.\<close>
  stay, \<^verbatim>\<open>..\<close> goes to the parent (the root is its own parent).
\<close>

fun walk :: "(location \<Rightarrow> node option) \<Rightarrow> location \<Rightarrow> string list \<Rightarrow> os_error + location" where
  "walk ns cur [] = Inr cur"
| "walk ns cur (c # cs) =
     (case ns cur of
        None \<Rightarrow> Inl FileNotFoundError
      | Some (File w d) \<Rightarrow> Inl NotADirectoryError
      | Some (Dir w) \<Rightarrow>
          if c = [] \<or> c = ''.'' then walk ns cur cs
          else if c = ''..'' then walk ns (butlast cur) cs
          else (case ns (cur @ [c]) of
                  None \<Rightarrow> Inl FileNotFoundError
                | Some n \<Rightarrow> walk ns (cur @ [c]) cs))"

definition start :: "filesystem \<Rightarrow> string \<Rightarrow> location" where
  "start s p = (if p \<noteq> [] \<and> hd p = sep then [] else cwd s)"

definition NUL :: char where
  "NUL = CHR 0x00"

text \<open>
  \<^verbatim>\<open>os.stat(path)\<close>, reduced to the location and the node found. Python raises
  \<^verbatim>\<open>ValueError\<close> for a path with an embedded null byte; the empty path does not
  exist.
\<close>

definition stat :: "filesystem \<Rightarrow> string \<Rightarrow> os_error + (location \<times> node)" where
  "stat s p =
     (if NUL \<in> set p then Inl ValueError
      else if p = [] then Inl FileNotFoundError
      else (case walk (nodes s) (start s p) (components p) of
              Inl e \<Rightarrow> Inl e
            | Inr l \<Rightarrow> (case nodes s l of
                         None \<Rightarrow> Inl FileNotFoundError
                       | Some n \<Rightarrow> Inr (l, n))))"

text \<open>
  \<^verbatim>\<open>os.path.exists\<close> and \<^verbatim>\<open>os.path.isdir\<close> call \<^verbatim>\<open>os.stat\<close> and answer \<^verbatim>\<open>False\<close>
  on \<^verbatim>\<open>OSError\<close> and \<^verbatim>\<open>ValueError\<close>.
\<close>

definition path_exists :: "filesystem \<Rightarrow> string \<Rightarrow> bool" where
  "path_exists s p = (case stat s p of Inl e \<Rightarrow> False | Inr x \<Rightarrow> True)"

definition path_isdir :: "filesystem \<Rightarrow> string \<Rightarrow> bool" where
  "path_isdir s p = (case stat s p of Inr (l, Dir w) \<Rightarrow> True | _ \<Rightarrow> False)"

definition path_isfile :: "filesystem \<Rightarrow> string \<Rightarrow> bool" where
  "path_isfile s p = (case stat s p of Inr (l, File w d) \<Rightarrow> True | _ \<Rightarrow> False)"

text \<open>Reading a whole file: \<^verbatim>\<open>open(path, 'rb').read()\<close>.\<close>

definition read_file :: "filesystem \<Rightarrow> string \<Rightarrow> os_error + string" where
  "read_file s p =
     (case stat s p of
        Inl e \<Rightarrow> Inl e
      | Inr (l, Dir w) \<Rightarrow> Inl IsADirectoryError
      | Inr (l, File w d) \<Rightarrow> Inr d)"

text \<open>
  \<^verbatim>\<open>os.mkdir(path)\<close>. Trailing separators are ignored; the parent must resolve to a
  directory; a last component \<^verbatim>\<open>.\<close> or \<^verbatim>\<open>..\<close>, the root, and a name already in use
  give \<^verbatim>\<open>FileExistsError\<close>; the parent must be writable. The new directory is
  writable (the umask leaves the owner's write bit).
\<close>

definition strip_empty :: "string list \<Rightarrow> string list" where
  "strip_empty cs = rev (dropWhile (\<lambda>c. c = []) (rev cs))"

definition mkdir :: "string \<Rightarrow> unit io" where
  "mkdir p s =
     (if NUL \<in> set p then (Inl ValueError, s)
      else if p = [] then (Inl FileNotFoundError, s)
      else let cs = strip_empty (components p) in
        if cs = [] then (Inl FileExistsError, s)
        else (case walk (nodes s) (start s p) (butlast cs) of
                Inl e \<Rightarrow> (Inl e, s)
              | Inr l \<Rightarrow>
                 (case nodes s l of
                    None \<Rightarrow> (Inl FileNotFoundError, s)
                  | Some (File w d) \<Rightarrow> (Inl NotADirectoryError, s)
                  | Some (Dir w) \<Rightarrow>
                      if last cs = ''.'' \<or> last cs = ''..'' then (Inl FileExistsError, s)
                      else if nodes s (l @ [last cs]) \<noteq> None then (Inl FileExistsError, s)
                      else if \<not> w then (Inl PermissionError, s)
                      else (Inr (), s\<lparr>nodes := (nodes s)(l @ [last cs] \<mapsto> Dir True)\<rparr>))))"

text \<open>
  \<^verbatim>\<open>os.makedirs(name, exist_ok=exist_ok)\<close>, from CPython's \<^verbatim>\<open>os.py\<close>:
  \<^verbatim>\<open>
  head, tail = path.split(name)
  if not tail:
      head, tail = path.split(head)
  if head and tail and not path.exists(head):
      try:
          makedirs(head, exist_ok=exist_ok)
      except FileExistsError:
          pass
      if tail == curdir:
          return
  try:
      mkdir(name, mode)
  except OSError:
      if not exist_ok or not path.isdir(name):
          raise
  \<close>
  \<^verbatim>\<open>ValueError\<close> is no \<^verbatim>\<open>OSError\<close> and is not caught.
\<close>

definition makedirs_parts :: "string \<Rightarrow> string \<times> string" where
  "makedirs_parts name =
     (if snd (path_split name) = [] then path_split (fst (path_split name))
      else path_split name)"

definition mkdir_exist_ok :: "string \<Rightarrow> bool \<Rightarrow> unit io" where
  "mkdir_exist_ok name exist_ok s =
     (case mkdir name s of
        (Inr u, s') \<Rightarrow> (Inr (), s')
      | (Inl e, s') \<Rightarrow>
          if e = ValueError then (Inl e, s')
          else if \<not> exist_ok \<or> \<not> path_isdir s' name then (Inl e, s')
          else (Inr (), s'))"

function makedirs :: "string \<Rightarrow> bool \<Rightarrow> unit io" where
  "makedirs name exist_ok s =
     (if fst (makedirs_parts name) \<noteq> [] \<and> snd (makedirs_parts name) \<noteq> []
         \<and> \<not> path_exists s (fst (makedirs_parts name))
      then (case makedirs (fst (makedirs_parts name)) exist_ok s of
              (Inl e, s1) \<Rightarrow>
                if e = FileExistsError
                then (if snd (makedirs_parts name) = ''.'' then (Inr (), s1)
                      else mkdir_exist_ok name exist_ok s1)
                else (Inl e, s1)
            | (Inr u, s1) \<Rightarrow>
                if snd (makedirs_parts name) = ''.'' then (Inr (), s1)
                else mkdir_exist_ok name exist_ok s1)
      else mkdir_exist_ok name exist_ok s)"
  by pat_completeness auto

lemma length_rstrip_sep: "length (rstrip_sep p) \<le> length p"
  unfolding rstrip_sep_def
  by (metis length_dropWhile_le length_rev)

lemma path_split_head_le: "length (fst (path_split p)) \<le> length p"
  by (simp add: path_split_def Let_def)
    (metis diff_le_self length_rstrip_sep length_take min.absorb2 order_trans)

lemma path_split_head_less:
  "snd (path_split p) \<noteq> [] \<Longrightarrow> length (fst (path_split p)) < length p"
proof -
  assume t: "snd (path_split p) \<noteq> []"
  let ?tail = "rev (takeWhile (\<lambda>c. c \<noteq> sep) (rev p))"
  let ?head = "take (length p - length ?tail) p"
  from t have "?tail \<noteq> []" by (simp add: path_split_def Let_def)
  then have pos: "0 < length ?tail" by simp
  have "length ?tail \<le> length p"
    by (metis length_rev length_takeWhile_le)
  with pos have "length p - length ?tail < length p" by arith
  then have hl: "length ?head < length p" by simp
  have "length (rstrip_sep ?head) \<le> length ?head" by (rule length_rstrip_sep)
  with hl show ?thesis by (simp add: path_split_def Let_def)
qed

lemma makedirs_parts_less:
  "snd (makedirs_parts name) \<noteq> [] \<Longrightarrow> length (fst (makedirs_parts name)) < length name"
proof -
  assume t: "snd (makedirs_parts name) \<noteq> []"
  show ?thesis
  proof (cases "snd (path_split name) = []")
    case True
    then have eq: "makedirs_parts name = path_split (fst (path_split name))"
      by (simp add: makedirs_parts_def)
    with t have "length (fst (path_split (fst (path_split name)))) < length (fst (path_split name))"
      by (simp add: path_split_head_less)
    with path_split_head_le [of name] eq show ?thesis by simp
  next
    case False
    then have "makedirs_parts name = path_split name"
      by (simp add: makedirs_parts_def)
    with False show ?thesis by (simp add: path_split_head_less)
  qed
qed

termination makedirs
  by (relation "measure (\<lambda>(name, exist_ok, s). length name)")
    (auto simp: makedirs_parts_less)

declare makedirs.simps [simp del]

text \<open>
  \<^verbatim>\<open>open(path, 'w', encoding='utf-8')\<close>: the system call is
  \<^verbatim>\<open>open(path, O_WRONLY | O_CREAT | O_TRUNC)\<close>. The parent must resolve to a
  directory; a trailing separator, \<^verbatim>\<open>.\<close>, \<^verbatim>\<open>..\<close> and a directory give
  \<^verbatim>\<open>IsADirectoryError\<close>; an existing file must be writable and is emptied, its bytes
  freed; a new file needs a writable parent. The result is the location of the open
  file.
\<close>

definition open_w :: "string \<Rightarrow> location io" where
  "open_w p s =
     (if NUL \<in> set p then (Inl ValueError, s)
      else if p = [] then (Inl FileNotFoundError, s)
      else let cs = components p in
        (case walk (nodes s) (start s p) (butlast cs) of
           Inl e \<Rightarrow> (Inl e, s)
         | Inr l \<Rightarrow>
            (case nodes s l of
               None \<Rightarrow> (Inl FileNotFoundError, s)
             | Some (File w d) \<Rightarrow> (Inl NotADirectoryError, s)
             | Some (Dir w) \<Rightarrow>
                 if last cs = [] \<or> last cs = ''.'' \<or> last cs = ''..''
                 then (Inl IsADirectoryError, s)
                 else (case nodes s (l @ [last cs]) of
                         Some (Dir w') \<Rightarrow> (Inl IsADirectoryError, s)
                       | Some (File w' d) \<Rightarrow>
                           if w' then (Inr (l @ [last cs]),
                             s\<lparr>nodes := (nodes s)(l @ [last cs] \<mapsto> File w' []),
                               free := free s + length d\<rparr>)
                           else (Inl PermissionError, s)
                       | None \<Rightarrow>
                           if w then (Inr (l @ [last cs]),
                             s\<lparr>nodes := (nodes s)(l @ [last cs] \<mapsto> File True [])\<rparr>)
                           else (Inl PermissionError, s)))))"

text \<open>
  \<^verbatim>\<open>f.write(data)\<close> on the file opened at \<open>f\<close>: the bytes are appended. When the
  device has too few free bytes, the bytes that fit are written and the error is
  \<^verbatim>\<open>OSError\<close> with \<^verbatim>\<open>ENOSPC\<close>. (Python buffers the five writes and hands them to the
  system when the \<^verbatim>\<open>with\<close> block closes the file; the file and the exception are the
  same.) The last case, a handle that is no file, does not occur: a handle comes from
  \<open>open_w\<close>.
\<close>

definition write_file :: "location \<Rightarrow> string \<Rightarrow> unit io" where
  "write_file f d s =
     (case nodes s f of
        Some (File w c) \<Rightarrow>
          if length d \<le> free s
          then (Inr (), s\<lparr>nodes := (nodes s)(f \<mapsto> File w (c @ d)), free := free s - length d\<rparr>)
          else (Inl OSError_ENOSPC,
                s\<lparr>nodes := (nodes s)(f \<mapsto> File w (c @ take (free s) d)), free := 0\<rparr>)
      | _ \<Rightarrow> (Inl ValueError, s))"

subsection \<open>\<^verbatim>\<open>create_stub_file\<close>\<close>

definition create_stub_file :: "string \<Rightarrow> string \<Rightarrow> unit io" where
  "create_stub_file path title =
     io_seq (makedirs (dirname path) True)
       (io_bind (open_w path) (\<lambda>f.
          io_seq (write_file f (''# '' @ title @ ''\<newline>\<newline>''))
         (io_seq (write_file f ''## Overview\<newline>\<newline>'')
         (io_seq (write_file f ''## Usage\<newline>\<newline>'')
         (io_seq (write_file f ''## Examples\<newline>\<newline>'')
                 (write_file f ''## Related Types\<newline>\<newline>''))))))"

subsection \<open>\<^verbatim>\<open>pathlib\<close> and \<^verbatim>\<open>str.lower\<close>\<close>

text \<open>
  A \<^verbatim>\<open>PurePosixPath\<close> is its root (\<^verbatim>\<open>''\<close>, \<^verbatim>\<open>'/'\<close> or \<^verbatim>\<open>'//'\<close>) and its parts;
  parsing a string drops the empty components and the \<^verbatim>\<open>.\<close> components. \<^verbatim>\<open>p / seg\<close>
  starts again from \<^verbatim>\<open>seg\<close> when it is absolute. \<^verbatim>\<open>str(p)\<close> is the root followed by the
  parts joined with \<^verbatim>\<open>/\<close>, and \<^verbatim>\<open>.\<close> for the empty path.
\<close>

record pure_path =
  root :: string
  parts :: "string list"

definition path_root :: "string \<Rightarrow> string" where
  "path_root p =
     (if take 1 p \<noteq> [sep] then []
      else if take 1 (drop 1 p) \<noteq> [sep] \<or> take 1 (drop 2 p) = [sep] then [sep]
      else [sep, sep])"

definition path_parts :: "string \<Rightarrow> string list" where
  "path_parts p = filter (\<lambda>c. c \<noteq> [] \<and> c \<noteq> ''.'') (components p)"

definition Path :: "string \<Rightarrow> pure_path" where
  "Path p = \<lparr>root = path_root p, parts = path_parts p\<rparr>"

definition truediv :: "pure_path \<Rightarrow> string \<Rightarrow> pure_path" where
  "truediv p seg =
     (if path_root seg \<noteq> [] then Path seg
      else \<lparr>root = root p, parts = parts p @ path_parts seg\<rparr>)"

definition str_path :: "pure_path \<Rightarrow> string" where
  "str_path p =
     (if root p = [] \<and> parts p = [] then ''.'' else root p @ join_sep (parts p))"

text \<open>
  \<^verbatim>\<open>str.lower()\<close> on ASCII text: the letters \<^verbatim>\<open>A\<close> to \<^verbatim>\<open>Z\<close> become \<^verbatim>\<open>a\<close> to \<^verbatim>\<open>z\<close>,
  every other byte stays. All names of the tables below are ASCII.
\<close>

definition lower_char :: "char \<Rightarrow> char" where
  "lower_char c =
     (case map_of (zip ''ABCDEFGHIJKLMNOPQRSTUVWXYZ'' ''abcdefghijklmnopqrstuvwxyz'') c of
        Some l \<Rightarrow> l
      | None \<Rightarrow> c)"

definition str_lower :: "string \<Rightarrow> string" where
  "str_lower = map lower_char"

subsection \<open>\<^verbatim>\<open>main\<close>\<close>

text \<open>
  The three tables are Python dictionaries from a category to a list of names; a
  dictionary iterates in insertion order, so each is a list of pairs.
\<close>

definition level1_types :: "(string \<times> string list) list" where
  "level1_types =
    [(''primitive'', [''int'', ''float'', ''str'', ''bool'', ''bytes'', ''complex'', ''None'']),
     (''collections'', [''List'', ''Dict'', ''Tuple'', ''Set'', ''FrozenSet'']),
     (''utilities'',
        [''Optional'', ''Union'', ''Any'', ''Literal'', ''Callable'',
         ''Annotated'', ''Final'', ''ClassVar'', ''Type'']),
     (''abcs'',
        [''Iterable'', ''Iterator'', ''Sequence'', ''Mapping'',
         ''MutableMapping'', ''Sized'', ''Container'', ''Collection''])]"

definition level2_types :: "(string \<times> string list) list" where
  "level2_types =
    [(''structured'', [''TypedDict'', ''NamedTuple'', ''TypeAlias'', ''LiteralString'']),
     (''abcs'',
        [''ContextManager'', ''AsyncContextManager'', ''Reversible'',
         ''Hashable'', ''SupportsInt'']),
     (''async'',
        [''Awaitable'', ''Coroutine'', ''AsyncIterator'',
         ''AsyncIterable'', ''Generator'']),
     (''callable'', [''Callable_Args'', ''TypeGuard'', ''NewType'']),
     (''tools'',
        [''overload'', ''cast'', ''reveal_type'', ''assert_type'',
         ''assert_never''])]"

definition level3_types :: "(string \<times> string list) list" where
  "level3_types =
    [(''generics'',
        [''Generic'', ''TypeVar'', ''TypeVarTuple'', ''ParamSpec'',
         ''Concatenate'', ''Unpack'', ''Self'']),
     (''protocols'',
        [''Protocol'', ''runtime_checkable'', ''is_protocol'',
         ''get_protocol_members'']),
     (''internals'',
        [''ForwardRef'', ''get_args'', ''get_origin'', ''get_type_hints'',
         ''TypeAliasType'', ''NoReturn'', ''Never'', ''NoDefault'']),
     (''domain'', [''BinaryIO'', ''IO'', ''TextIO'', ''Match'', ''Pattern'', ''AnyStr'']),
     (''decorators'',
        [''dataclass_transform'', ''final'', ''override'',
         ''no_type_check'', ''no_type_check_decorator'',
         ''ReadOnly'', ''Required'', ''NotRequired''])]"

definition base_dir :: pure_path where
  "base_dir = Path ''PythonTypeGuide''"

text \<open>
  The three loops of \<^verbatim>\<open>main\<close> are the same but for the level directory and the table:
  \<^verbatim>\<open>
  for category, types in level1_types.items():
      for type_name in types:
          path = base_dir / "level1" / category / f"{type_name.lower()}.md"
          create_stub_file(str(path), type_name)
  \<close>
  \<open>stub_path\<close> is the path of one iteration, \<open>generate_types\<close> the inner loop,
  \<open>generate_level\<close> the outer one. An exception leaves both loops.
\<close>

definition stub_path :: "string \<Rightarrow> string \<Rightarrow> string \<Rightarrow> string" where
  "stub_path level category type_name =
     str_path (truediv (truediv (truediv base_dir level) category)
       (str_lower type_name @ ''.md''))"

fun generate_types :: "string \<Rightarrow> string \<Rightarrow> string list \<Rightarrow> unit io" where
  "generate_types level category [] s = (Inr (), s)"
| "generate_types level category (type_name # types) s =
     (case create_stub_file (stub_path level category type_name) type_name s of
        (Inl e, s') \<Rightarrow> (Inl e, s')
      | (Inr u, s') \<Rightarrow> generate_types level category types s')"

fun generate_level :: "string \<Rightarrow> (string \<times> string list) list \<Rightarrow> unit io" where
  "generate_level level [] s = (Inr (), s)"
| "generate_level level ((category, types) # rest) s =
     (case generate_types level category types s of
        (Inl e, s') \<Rightarrow> (Inl e, s')
      | (Inr u, s') \<Rightarrow> generate_level level rest s')"

definition main :: "unit io" where
  "main =
     io_seq (generate_level ''level1'' level1_types)
    (io_seq (generate_level ''level2'' level2_types)
            (generate_level ''level3'' level3_types))"

subsection \<open>Derived notions\<close>

text \<open>
  The bytes of a stub, as the five \<^verbatim>\<open>f.write\<close> calls of \<^verbatim>\<open>create_stub_file\<close> produce
  them one after the other, and the five writes as one operation.
\<close>

definition stub_text :: "string \<Rightarrow> string" where
  "stub_text title =
     (''# '' @ title @ ''\<newline>\<newline>'') @ ''## Overview\<newline>\<newline>'' @ ''## Usage\<newline>\<newline>''
       @ ''## Examples\<newline>\<newline>'' @ ''## Related Types\<newline>\<newline>''"

definition write_stub :: "location \<Rightarrow> string \<Rightarrow> unit io" where
  "write_stub f title =
     io_seq (write_file f (''# '' @ title @ ''\<newline>\<newline>''))
    (io_seq (write_file f ''## Overview\<newline>\<newline>'')
    (io_seq (write_file f ''## Usage\<newline>\<newline>'')
    (io_seq (write_file f ''## Examples\<newline>\<newline>'')
            (write_file f ''## Related Types\<newline>\<newline>''))))"


text \<open>
  The calls of \<^verbatim>\<open>create_stub_file\<close> that \<^verbatim>\<open>main\<close> makes, as a list of pairs of a path
  and a title in the order of the loops, and the run of such a list.
\<close>

fun run_calls :: "(string \<times> string) list \<Rightarrow> unit io" where
  "run_calls [] s = (Inr (), s)"
| "run_calls ((path, title) # cs) s =
     (case create_stub_file path title s of
        (Inl e, s') \<Rightarrow> (Inl e, s')
      | (Inr u, s') \<Rightarrow> run_calls cs s')"

definition calls_of :: "string \<Rightarrow> (string \<times> string list) list \<Rightarrow> (string \<times> string) list" where
  "calls_of level table =
     concat (map (\<lambda>(category, types).
       map (\<lambda>type_name. (stub_path level category type_name, type_name)) types) table)"

definition stub_calls :: "(string \<times> string) list" where
  "stub_calls = calls_of ''level1'' level1_types @ calls_of ''level2'' level2_types
     @ calls_of ''level3'' level3_types"

text \<open>
  A small file system for examples: a read-only root, the writable working directory
  \<^verbatim>\<open>/work\<close>, and room for 100000 bytes.
\<close>

definition example_fs :: filesystem where
  "example_fs =
     \<lparr>nodes = [[] \<mapsto> Dir False, [''work''] \<mapsto> Dir True], cwd = [''work''], free = 100000\<rparr>"

lemmas fs_eval = path_split_def dirname_def sep_def all_sep_def rstrip_sep_def makedirs_parts_def
  stat_def path_exists_def path_isdir_def path_isfile_def read_file_def start_def NUL_def
  mkdir_def strip_empty_def mkdir_exist_ok_def makedirs.simps open_w_def write_file_def
  create_stub_file_def io_bind_def io_seq_def Let_def example_fs_def

section \<open>Properties of \<^verbatim>\<open>create_stub_file\<close> for every path\<close>

subsection \<open>Path resolution\<close>

lemma walk_append:
  "walk ns cur (xs @ ys) =
     (case walk ns cur xs of Inl e \<Rightarrow> Inl e | Inr l \<Rightarrow> walk ns l ys)"
  by (induction xs arbitrary: cur) (auto split: option.splits node.splits)

lemma walk_appendD:
  "walk ns cur (xs @ ys) = Inr l \<Longrightarrow> \<exists>l0. walk ns cur xs = Inr l0 \<and> walk ns l0 ys = Inr l"
  by (simp add: walk_append split: sum.splits)

lemma walk_ConsD: "walk ns cur (c # cs) = Inr l \<Longrightarrow> \<exists>w. ns cur = Some (Dir w)"
  by (auto split: option.splits node.splits)

lemma walk_mono:
  assumes "walk ns cur cs = Inr l"
    and "\<And>q w. ns q = Some (Dir w) \<Longrightarrow> ns' q = Some (Dir w)"
    and "\<And>q. ns q \<noteq> None \<Longrightarrow> ns' q \<noteq> None"
  shows "walk ns' cur cs = Inr l"
  using assms(1)
proof (induction cs arbitrary: cur)
  case Nil
  then show ?case by simp
next
  case (Cons c cs)
  from Cons.prems obtain w where d: "ns cur = Some (Dir w)" by (blast dest: walk_ConsD)
  then have d': "ns' cur = Some (Dir w)" by (rule assms(2))
  show ?case
  proof (cases "c = [] \<or> c = ''.'' \<or> c = ''..''")
    case True
    with Cons d d' show ?thesis by (auto split: if_splits)
  next
    case False
    with Cons.prems d obtain n where n: "ns (cur @ [c]) = Some n" and
      w: "walk ns (cur @ [c]) cs = Inr l"
      by (auto split: option.splits)
    from n have "ns' (cur @ [c]) \<noteq> None" by (intro assms(3)) simp
    then obtain n' where "ns' (cur @ [c]) = Some n'" by blast
    with False d' Cons.IH [OF w] show ?thesis by simp
  qed
qed

lemma components_nonempty: "components p \<noteq> []"
  by (induction p) (auto split: list.splits)

lemma components_snoc: "components p = butlast (components p) @ [last (components p)]"
  by (simp add: components_nonempty)

subsection \<open>Opening and writing\<close>

lemma open_w_InrD:
  assumes "open_w p s = (Inr f, s2)"
  shows "\<exists>l w. walk (nodes s) (start s p) (butlast (components p)) = Inr l
           \<and> nodes s l = Some (Dir w)
           \<and> f = l @ [last (components p)]
           \<and> last (components p) \<noteq> [] \<and> last (components p) \<noteq> ''.''
           \<and> last (components p) \<noteq> ''..''
           \<and> NUL \<notin> set p \<and> p \<noteq> []
           \<and> ((nodes s f = None \<and> w \<and> s2 = s\<lparr>nodes := (nodes s)(f \<mapsto> File True [])\<rparr>)
              \<or> (\<exists>d. nodes s f = Some (File True d)
                    \<and> s2 = s\<lparr>nodes := (nodes s)(f \<mapsto> File True []),
                             free := free s + length d\<rparr>))"
  using assms
  by (auto simp: open_w_def Let_def split: if_splits sum.splits option.splits node.splits)

lemma write_file_ok:
  "nodes s f = Some (File w c) \<Longrightarrow> write_file f d s = (Inr (), s') \<Longrightarrow>
     length d \<le> free s \<and>
     s' = s\<lparr>nodes := (nodes s)(f \<mapsto> File w (c @ d)), free := free s - length d\<rparr>"
  by (auto simp: write_file_def split: if_splits)

lemma create_stub_file_alt:
  "create_stub_file path title =
     io_seq (makedirs (dirname path) True) (io_bind (open_w path) (\<lambda>f. write_stub f title))"
  by (simp add: create_stub_file_def write_stub_def)

lemma io_seq_InrD:
  "io_seq m k s = (Inr x, s') \<Longrightarrow> \<exists>s1. m s = (Inr (), s1) \<and> k s1 = (Inr x, s')"
  by (auto simp: io_seq_def io_bind_def split: prod.splits sum.splits)

lemma io_bind_InrD:
  "io_bind m k s = (Inr x, s') \<Longrightarrow> \<exists>y s1. m s = (Inr y, s1) \<and> k y s1 = (Inr x, s')"
  by (auto simp: io_bind_def split: prod.splits sum.splits)

lemma write_file_step:
  assumes "nodes s f = Some (File w c)" and "io_seq (write_file f d) k s = (Inr x, s')"
  shows "length d \<le> free s \<and>
     k (s\<lparr>nodes := (nodes s)(f \<mapsto> File w (c @ d)), free := free s - length d\<rparr>) = (Inr x, s')"
  using assms by (auto simp: io_seq_def io_bind_def write_file_def split: if_splits)

lemma five_writes:
  assumes "nodes s f = Some (File w c)"
    and "io_seq (write_file f d1) (io_seq (write_file f d2) (io_seq (write_file f d3)
          (io_seq (write_file f d4) (write_file f d5)))) s = (Inr (), s')"
  shows "length (d1 @ d2 @ d3 @ d4 @ d5) \<le> free s \<and>
     s' = s\<lparr>nodes := (nodes s)(f \<mapsto> File w (c @ d1 @ d2 @ d3 @ d4 @ d5)),
            free := free s - length (d1 @ d2 @ d3 @ d4 @ d5)\<rparr>"
proof -
  let ?s1 = "s\<lparr>nodes := (nodes s)(f \<mapsto> File w (c @ d1)), free := free s - length d1\<rparr>"
  from write_file_step [OF assms] have l1: "length d1 \<le> free s" and
    r1: "io_seq (write_file f d2) (io_seq (write_file f d3)
          (io_seq (write_file f d4) (write_file f d5))) ?s1 = (Inr (), s')"
    by simp_all
  have n1: "nodes ?s1 f = Some (File w (c @ d1))" by simp
  let ?s2 = "?s1\<lparr>nodes := (nodes ?s1)(f \<mapsto> File w ((c @ d1) @ d2)), free := free ?s1 - length d2\<rparr>"
  from write_file_step [OF n1 r1] have l2: "length d2 \<le> free ?s1" and
    r2: "io_seq (write_file f d3) (io_seq (write_file f d4) (write_file f d5)) ?s2 = (Inr (), s')"
    by simp_all
  have n2: "nodes ?s2 f = Some (File w ((c @ d1) @ d2))" by simp
  let ?s3 = "?s2\<lparr>nodes := (nodes ?s2)(f \<mapsto> File w (((c @ d1) @ d2) @ d3)), free := free ?s2 - length d3\<rparr>"
  from write_file_step [OF n2 r2] have l3: "length d3 \<le> free ?s2" and
    r3: "io_seq (write_file f d4) (write_file f d5) ?s3 = (Inr (), s')"
    by simp_all
  have n3: "nodes ?s3 f = Some (File w (((c @ d1) @ d2) @ d3))" by simp
  let ?s4 = "?s3\<lparr>nodes := (nodes ?s3)(f \<mapsto> File w ((((c @ d1) @ d2) @ d3) @ d4)), free := free ?s3 - length d4\<rparr>"
  from write_file_step [OF n3 r3] have l4: "length d4 \<le> free ?s3" and
    r4: "write_file f d5 ?s4 = (Inr (), s')"
    by simp_all
  have n4: "nodes ?s4 f = Some (File w ((((c @ d1) @ d2) @ d3) @ d4))" by simp
  from write_file_ok [OF n4 r4] have l5: "length d5 \<le> free ?s4" and
    e: "s' = ?s4\<lparr>nodes := (nodes ?s4)(f \<mapsto> File w (((((c @ d1) @ d2) @ d3) @ d4) @ d5)),
                 free := free ?s4 - length d5\<rparr>"
    by simp_all
  from l1 l2 l3 l4 l5 have "length (d1 @ d2 @ d3 @ d4 @ d5) \<le> free s" by simp
  moreover have "s' = s\<lparr>nodes := (nodes s)(f \<mapsto> File w (c @ d1 @ d2 @ d3 @ d4 @ d5)),
            free := free s - length (d1 @ d2 @ d3 @ d4 @ d5)\<rparr>"
    unfolding e by simp
  ultimately show ?thesis by blast
qed

lemma write_stub_ok:
  assumes "nodes s f = Some (File w [])" and "write_stub f title s = (Inr (), s')"
  shows "length (stub_text title) \<le> free s \<and>
     s' = s\<lparr>nodes := (nodes s)(f \<mapsto> File w (stub_text title)),
            free := free s - length (stub_text title)\<rparr>"
  using five_writes [OF assms(1) assms(2) [unfolded write_stub_def]]
  unfolding stub_text_def append_Nil .


lemma create_stub_file_InrD:
  assumes "create_stub_file path title s = (Inr (), s')"
  shows "\<exists>s1 l w old. makedirs (dirname path) True s = (Inr (), s1)
     \<and> walk (nodes s1) (start s1 path) (butlast (components path)) = Inr l
     \<and> nodes s1 l = Some (Dir w)
     \<and> last (components path) \<noteq> [] \<and> last (components path) \<noteq> ''.''
     \<and> last (components path) \<noteq> ''..'' \<and> NUL \<notin> set path \<and> path \<noteq> []
     \<and> ((nodes s1 (l @ [last (components path)]) = None \<and> w \<and> old = [])
        \<or> nodes s1 (l @ [last (components path)]) = Some (File True old))
     \<and> length (stub_text title) \<le> free s1 + length old
     \<and> s' = s1\<lparr>nodes := (nodes s1)(l @ [last (components path)] \<mapsto> File True (stub_text title)),
               free := free s1 + length old - length (stub_text title)\<rparr>"
proof -
  from assms obtain s1 f s2 where
    m: "makedirs (dirname path) True s = (Inr (), s1)" and
    o: "open_w path s1 = (Inr f, s2)" and
    w: "write_stub f title s2 = (Inr (), s')"
    unfolding create_stub_file_alt by (blast dest: io_seq_InrD io_bind_InrD)
  from open_w_InrD [OF o] obtain l w where
    l: "walk (nodes s1) (start s1 path) (butlast (components path)) = Inr l" and
    d: "nodes s1 l = Some (Dir w)" and
    f: "f = l @ [last (components path)]" and
    c: "last (components path) \<noteq> []" "last (components path) \<noteq> ''.''"
       "last (components path) \<noteq> ''..''" "NUL \<notin> set path" "path \<noteq> []" and
    k: "(nodes s1 f = None \<and> w \<and> s2 = s1\<lparr>nodes := (nodes s1)(f \<mapsto> File True [])\<rparr>)
        \<or> (\<exists>d. nodes s1 f = Some (File True d)
              \<and> s2 = s1\<lparr>nodes := (nodes s1)(f \<mapsto> File True []),
                        free := free s1 + length d\<rparr>)"
    by blast
  from k show ?thesis
  proof
    assume a: "nodes s1 f = None \<and> w \<and> s2 = s1\<lparr>nodes := (nodes s1)(f \<mapsto> File True [])\<rparr>"
    then have n2: "nodes s2 f = Some (File True [])" by simp
    from write_stub_ok [OF n2 w] a have
      "length (stub_text title) \<le> free s1 + length ([]::string)"
      "s' = s1\<lparr>nodes := (nodes s1)(f \<mapsto> File True (stub_text title)),
               free := free s1 + length ([]::string) - length (stub_text title)\<rparr>"
      by simp_all
    with m l d c a f show ?thesis by blast
  next
    assume "\<exists>d. nodes s1 f = Some (File True d)
              \<and> s2 = s1\<lparr>nodes := (nodes s1)(f \<mapsto> File True []),
                        free := free s1 + length d\<rparr>"
    then obtain old where a: "nodes s1 f = Some (File True old)"
      "s2 = s1\<lparr>nodes := (nodes s1)(f \<mapsto> File True []), free := free s1 + length old\<rparr>"
      by blast
    then have n2: "nodes s2 f = Some (File True [])" by simp
    from write_stub_ok [OF n2 w] a have
      "length (stub_text title) \<le> free s1 + length old"
      "s' = s1\<lparr>nodes := (nodes s1)(f \<mapsto> File True (stub_text title)),
               free := free s1 + length old - length (stub_text title)\<rparr>"
      by simp_all
    with m l d c a f show ?thesis by blast
  qed
qed

lemma stat_after_write:
  assumes l: "walk (nodes s1) (start s1 path) (butlast (components path)) = Inr l"
    and d: "nodes s1 l = Some (Dir w)"
    and c: "last (components path) \<noteq> []" "last (components path) \<noteq> ''.''"
       "last (components path) \<noteq> ''..''" "NUL \<notin> set path" "path \<noteq> []"
    and k: "nodes s1 (l @ [last (components path)]) = None
        \<or> nodes s1 (l @ [last (components path)]) = Some (File w0 old)"
    and s': "nodes s' = (nodes s1)(l @ [last (components path)] \<mapsto> File w' d')"
       "cwd s' = cwd s1"
  shows "stat s' path = Inr (l @ [last (components path)], File w' d')"
proof -
  let ?f = "l @ [last (components path)]"
  have st: "start s' path = start s1 path" by (simp add: start_def s')
  have "walk (nodes s') (start s1 path) (butlast (components path)) = Inr l"
  proof (rule walk_mono [OF l])
    fix q w assume "nodes s1 q = Some (Dir w)"
    with k show "nodes s' q = Some (Dir w)" by (auto simp: s')
  next
    fix q assume "nodes s1 q \<noteq> None"
    then show "nodes s' q \<noteq> None" by (simp add: s')
  qed
  moreover have "nodes s' l = Some (Dir w)" using d k by (auto simp: s')
  then have "walk (nodes s') l [last (components path)] = Inr ?f"
    using c by (simp add: s')
  ultimately have "walk (nodes s') (start s' path) (components path) = Inr ?f"
    by (subst components_snoc) (simp add: walk_append st)
  then show ?thesis using c by (simp add: stat_def s')
qed

lemma create_stub_file_stat:
  assumes "create_stub_file path title s = (Inr (), s')"
  shows "\<exists>f. stat s' path = Inr (f, File True (stub_text title))"
proof -
  from create_stub_file_InrD [OF assms] obtain s1 l w old where
    l: "walk (nodes s1) (start s1 path) (butlast (components path)) = Inr l" and
    d: "nodes s1 l = Some (Dir w)" and
    c: "last (components path) \<noteq> []" "last (components path) \<noteq> ''.''"
       "last (components path) \<noteq> ''..''" "NUL \<notin> set path" "path \<noteq> []" and
    k: "(nodes s1 (l @ [last (components path)]) = None \<and> w \<and> old = [])
        \<or> nodes s1 (l @ [last (components path)]) = Some (File True old)" and
    s': "s' = s1\<lparr>nodes := (nodes s1)(l @ [last (components path)] \<mapsto> File True (stub_text title)),
               free := free s1 + length old - length (stub_text title)\<rparr>"
    by blast
  from k have k': "nodes s1 (l @ [last (components path)]) = None
        \<or> nodes s1 (l @ [last (components path)]) = Some (File True old)" by blast
  have "stat s' path = Inr (l @ [last (components path)], File True (stub_text title))"
    by (rule stat_after_write [OF l d c k']) (simp_all add: s')
  then show ?thesis by blast
qed


lemma makedirs_empty: "makedirs [] True s = (Inl FileNotFoundError, s)"
  by (simp add: makedirs.simps makedirs_parts_def path_split_def mkdir_exist_ok_def mkdir_def
      path_isdir_def stat_def)


subsection \<open>Splitting a path string\<close>

lemma components_sep_append:
  "components (xs @ sep # ys) = components xs @ components ys"
proof (induction xs)
  case Nil
  show ?case by simp
next
  case (Cons c xs)
  obtain x r where "components xs = x # r"
    using components_nonempty [of xs] by (cases "components xs") auto
  with Cons show ?case by simp
qed

lemma components_nosep: "sep \<notin> set t \<Longrightarrow> components t = [t]"
  by (induction t) auto

lemma components_replicate_sep:
  "components (replicate k sep @ ys) = replicate k [] @ components ys"
  by (induction k) auto

lemma rev_split_while:
  "xs = rev (dropWhile P (rev xs)) @ rev (takeWhile P (rev xs))"
  by (metis rev_append rev_rev_ident takeWhile_dropWhile_id)

lemma rstrip_sep_decomp:
  "\<exists>k. p = rstrip_sep p @ replicate k sep"
proof -
  let ?tw = "takeWhile (\<lambda>c. c = sep) (rev p)"
  have p: "p = rstrip_sep p @ rev ?tw"
    unfolding rstrip_sep_def by (rule rev_split_while)
  have "\<forall>c \<in> set (rev ?tw). c = sep" by (auto dest: set_takeWhileD)
  then have "replicate (length (rev ?tw)) sep = rev ?tw" by (rule replicate_length_same)
  with p show ?thesis by metis
qed

lemma rstrip_sep_last: "rstrip_sep p \<noteq> [] \<Longrightarrow> last (rstrip_sep p) \<noteq> sep"
proof -
  assume n: "rstrip_sep p \<noteq> []"
  then have d: "dropWhile (\<lambda>c. c = sep) (rev p) \<noteq> []" by (simp add: rstrip_sep_def)
  then have "hd (dropWhile (\<lambda>c. c = sep) (rev p)) \<noteq> sep" by (rule hd_dropWhile)
  with d show ?thesis by (simp add: rstrip_sep_def last_rev)
qed

lemma rstrip_sep_nonempty: "\<not> all_sep p \<Longrightarrow> rstrip_sep p \<noteq> []"
  by (auto simp: rstrip_sep_def all_sep_def dropWhile_eq_Nil_conv)

lemma all_sep_replicate: "all_sep p \<Longrightarrow> p = replicate (length p) sep"
  by (simp add: all_sep_def replicate_length_same)

lemma path_split_cases:
  obtains (bare) "sep \<notin> set p" "path_split p = ([], p)"
  | (slashes) k t where "p = replicate (Suc k) sep @ t" "sep \<notin> set t"
      "path_split p = (replicate (Suc k) sep, t)"
  | (proper) h k t where "p = h @ replicate (Suc k) sep @ t" "sep \<notin> set t" "h \<noteq> []"
      "last h \<noteq> sep" "path_split p = (h, t)"
proof -
  let ?t = "rev (takeWhile (\<lambda>c. c \<noteq> sep) (rev p))"
  let ?h = "rev (dropWhile (\<lambda>c. c \<noteq> sep) (rev p))"
  have p: "p = ?h @ ?t" by (rule rev_split_while)
  have t: "sep \<notin> set ?t" by (auto dest: set_takeWhileD)
  have "length p = length ?h + length ?t" by (subst p) simp
  then have "take (length p - length ?t) p = take (length ?h) (?h @ ?t)" using p by simp
  then have tk: "take (length p - length ?t) p = ?h" by simp
  have sp: "path_split p = (if ?h \<noteq> [] \<and> \<not> all_sep ?h then rstrip_sep ?h else ?h, ?t)"
    unfolding path_split_def Let_def tk ..
  show thesis
  proof (cases "?h = []")
    case True
    with p t sp show thesis by (intro bare) simp_all
  next
    case False
    then have d: "dropWhile (\<lambda>c. c \<noteq> sep) (rev p) \<noteq> []" by simp
    from hd_dropWhile [OF d] have "hd (dropWhile (\<lambda>c. c \<noteq> sep) (rev p)) = sep" by simp
    with d have lh: "last ?h = sep" by (simp add: last_rev)
    show thesis
    proof (cases "all_sep ?h")
      case True
      from all_sep_replicate [OF True] False obtain k where k: "?h = replicate (Suc k) sep"
        by (metis length_0_conv not0_implies_Suc)
      show thesis
      proof (rule slashes [of k ?t])
        show "p = replicate (Suc k) sep @ ?t" using p k by simp
        show "sep \<notin> set ?t" by (rule t)
        show "path_split p = (replicate (Suc k) sep, ?t)" using sp True k by simp
      qed
    next
      case ns: False
      obtain j where j: "?h = rstrip_sep ?h @ replicate j sep"
        using rstrip_sep_decomp [of ?h] by blast
      from ns have ne: "rstrip_sep ?h \<noteq> []" by (rule rstrip_sep_nonempty)
      then have ls: "last (rstrip_sep ?h) \<noteq> sep" by (rule rstrip_sep_last)
      have "j \<noteq> 0"
      proof
        assume "j = 0"
        with j have "?h = rstrip_sep ?h" by simp
        with ls lh show False by simp
      qed
      then obtain k where jk: "j = Suc k" by (cases j) auto
      show thesis
      proof (rule proper [of "rstrip_sep ?h" k ?t])
        show "p = rstrip_sep ?h @ replicate (Suc k) sep @ ?t"
          using p j jk by (metis append_assoc)
        show "sep \<notin> set ?t" by (rule t)
        show "rstrip_sep ?h \<noteq> []" by (rule ne)
        show "last (rstrip_sep ?h) \<noteq> sep" by (rule ls)
        show "path_split p = (rstrip_sep ?h, ?t)" using sp False ns by simp
      qed
    qed
  qed
qed

lemma components_slashes:
  "sep \<notin> set t \<Longrightarrow> components (replicate k sep @ t) = replicate k [] @ [t]"
  by (simp add: components_replicate_sep components_nosep)

lemma components_proper:
  "sep \<notin> set t \<Longrightarrow>
     components (h @ replicate (Suc k) sep @ t) = components h @ replicate k [] @ [t]"
  using components_sep_append [of h "replicate k sep @ t"]
  by (simp add: components_slashes)

lemma walk_empties:
  "walk ns l (replicate k [] @ cs) = Inr l' \<Longrightarrow> walk ns l cs = Inr l'"
  by (induction k) (auto split: option.splits node.splits)

lemma walk_empties_dir:
  "ns l = Some (Dir w) \<Longrightarrow> walk ns l (replicate k [] @ cs) = walk ns l cs"
  by (induction k) auto

lemma walk_only_empties: "walk ns l (replicate k []) = Inr l' \<Longrightarrow> l' = l"
  using walk_empties [of ns l k "[]" l'] by simp

lemma start_prefix: "h \<noteq> [] \<Longrightarrow> start s (h @ r) = start s h"
  by (simp add: start_def)

lemma stat_InrD:
  "stat s p = Inr (l, n) \<Longrightarrow>
     NUL \<notin> set p \<and> p \<noteq> [] \<and> walk (nodes s) (start s p) (components p) = Inr l \<and> nodes s l = Some n"
  by (auto simp: stat_def split: if_splits sum.splits option.splits)

lemma stat_InrI:
  "NUL \<notin> set p \<Longrightarrow> p \<noteq> [] \<Longrightarrow> walk (nodes s) (start s p) (components p) = Inr l \<Longrightarrow>
     nodes s l = Some n \<Longrightarrow> stat s p = Inr (l, n)"
  by (simp add: stat_def)

lemma stat_split_head_isdir:
  assumes st: "stat s p = Inr (l, n)"
    and hd: "fst (path_split p) \<noteq> []" and tl: "snd (path_split p) \<noteq> []"
  shows "path_isdir s (fst (path_split p))"
proof -
  from stat_InrD [OF st] have nul: "NUL \<notin> set p" and
    wk: "walk (nodes s) (start s p) (components p) = Inr l" by simp_all
  show ?thesis
  proof (cases p rule: path_split_cases)
    case bare
    with hd show ?thesis by simp
  next
    case (slashes k t)
    have st0: "start s p = []" "start s (replicate (Suc k) sep) = []"
      by (simp_all add: start_def slashes(1))
    have "components p = replicate (Suc k) [] @ [t]"
      unfolding slashes(1) using slashes(2) by (rule components_slashes)
    with wk st0 have "walk (nodes s) [] (replicate (Suc k) [] @ [t]) = Inr l" by simp
    then have "walk (nodes s) [] [t] = Inr l" by (rule walk_empties)
    then obtain w where d: "nodes s [] = Some (Dir w)" by (blast dest: walk_ConsD)
    have "components (replicate (Suc k) sep) = replicate (Suc k) [] @ [[]]"
      using components_replicate_sep [of "Suc k" "[]"] by simp
    then have "walk (nodes s) [] (components (replicate (Suc k) sep)) = Inr []"
      using walk_empties_dir [where ns = "nodes s" and l = "[]" and w = w and k = "Suc k"
          and cs = "[[]]"] d by simp
    then have "stat s (replicate (Suc k) sep) = Inr ([], Dir w)"
      using nul d st0 by (intro stat_InrI) (simp_all add: slashes(1))
    then show ?thesis by (simp add: path_isdir_def slashes(3))
  next
    case (proper h k t)
    from tl proper have t: "t \<noteq> []" by simp
    have st0: "start s p = start s h"
      unfolding proper(1) using proper(3) by (rule start_prefix)
    have "components p = components h @ (replicate k [] @ [t])"
      unfolding proper(1) using proper(2) by (rule components_proper)
    with wk st0 obtain l0 where l0: "walk (nodes s) (start s h) (components h) = Inr l0"
      and r: "walk (nodes s) l0 (replicate k [] @ [t]) = Inr l"
      by (metis walk_appendD)
    from r have "walk (nodes s) l0 [t] = Inr l" by (rule walk_empties)
    then obtain w where d: "nodes s l0 = Some (Dir w)" by (blast dest: walk_ConsD)
    have "stat s h = Inr (l0, Dir w)"
      using nul l0 d proper(3) by (intro stat_InrI) (simp_all add: proper(1))
    then show ?thesis by (simp add: path_isdir_def proper(5))
  qed
qed

lemma stat_split_tail_empty:
  assumes st: "stat s p = Inr (l, n)" and tl: "snd (path_split p) = []"
  shows "stat s (fst (path_split p)) = Inr (l, n)"
proof -
  from stat_InrD [OF st] have nul: "NUL \<notin> set p" and ne: "p \<noteq> []" and
    wk: "walk (nodes s) (start s p) (components p) = Inr l" and n: "nodes s l = Some n"
    by simp_all
  show ?thesis
  proof (cases p rule: path_split_cases)
    case bare
    with tl ne show ?thesis by simp
  next
    case (slashes k t)
    with tl st show ?thesis by simp
  next
    case (proper h k t)
    from tl proper have t: "t = []" by simp
    have st0: "start s p = start s h"
      unfolding proper(1) using proper(3) by (rule start_prefix)
    have "components p = components h @ replicate k [] @ [[]]"
      unfolding proper(1) t using components_proper [of "[]" h k] by simp
    then have "components p = components h @ replicate (Suc k) []"
      by (simp add: replicate_append_same)
    with wk st0 obtain l0 where l0: "walk (nodes s) (start s h) (components h) = Inr l0"
      and r: "walk (nodes s) l0 (replicate (Suc k) []) = Inr l"
      by (metis walk_appendD)
    from r have "l = l0" by (rule walk_only_empties)
    with l0 n nul proper(3) have "stat s h = Inr (l, n)"
      by (intro stat_InrI) (simp_all add: proper(1))
    then show ?thesis by (simp add: proper(5))
  qed
qed

lemma makedirs_head_exists:
  assumes st: "stat s name = Inr (l, n)"
    and hd: "fst (makedirs_parts name) \<noteq> []" and tl: "snd (makedirs_parts name) \<noteq> []"
  shows "path_exists s (fst (makedirs_parts name))"
proof (cases "snd (path_split name) = []")
  case True
  then have mp: "makedirs_parts name = path_split (fst (path_split name))"
    by (simp add: makedirs_parts_def)
  from stat_split_tail_empty [OF st True]
  have "stat s (fst (path_split name)) = Inr (l, n)" .
  from stat_split_head_isdir [OF this] hd tl mp
  show ?thesis
    by (auto simp: path_isdir_def path_exists_def split: sum.splits)
next
  case False
  then have mp: "makedirs_parts name = path_split name"
    by (simp add: makedirs_parts_def)
  from stat_split_head_isdir [OF st] hd tl mp
  show ?thesis
    by (auto simp: path_isdir_def path_exists_def split: sum.splits)
qed

lemma strip_empty_decomp: "\<exists>k. cs = strip_empty cs @ replicate k []"
proof -
  let ?tw = "takeWhile (\<lambda>c. c = []) (rev cs)"
  have p: "cs = strip_empty cs @ rev ?tw"
    unfolding strip_empty_def by (rule rev_split_while)
  have "\<forall>c \<in> set (rev ?tw). c = []" by (auto dest: set_takeWhileD)
  then have "replicate (length (rev ?tw)) [] = rev ?tw" by (rule replicate_length_same)
  with p show ?thesis by metis
qed

lemma strip_empty_last: "strip_empty cs \<noteq> [] \<Longrightarrow> last (strip_empty cs) \<noteq> []"
proof -
  assume n: "strip_empty cs \<noteq> []"
  then have d: "dropWhile (\<lambda>c. c = []) (rev cs) \<noteq> []" by (simp add: strip_empty_def)
  then have "hd (dropWhile (\<lambda>c. c = []) (rev cs)) \<noteq> []" by (rule hd_dropWhile)
  with d show ?thesis by (simp add: strip_empty_def last_rev)
qed

lemma mkdir_error_state: "mkdir p s = (Inl e, s') \<Longrightarrow> s' = s"
  by (auto simp: mkdir_def Let_def split: if_splits sum.splits option.splits node.splits)

lemma mkdir_existing:
  assumes st: "stat s p = Inr (l, n)"
  shows "\<exists>e. mkdir p s = (Inl e, s) \<and> e \<noteq> ValueError"
proof -
  from stat_InrD [OF st] have nul: "NUL \<notin> set p" and ne: "p \<noteq> []" and
    wk: "walk (nodes s) (start s p) (components p) = Inr l" by simp_all
  let ?cs = "strip_empty (components p)"
  obtain k where k: "components p = ?cs @ replicate k []"
    using strip_empty_decomp by blast
  show ?thesis
  proof (cases "?cs = []")
    case True
    with nul ne show ?thesis by (simp add: mkdir_def)
  next
    case False
    then have sn: "?cs = butlast ?cs @ [last ?cs]" by simp
    from wk k obtain l1 where "walk (nodes s) (start s p) ?cs = Inr l1"
      by (metis walk_appendD)
    with sn obtain l0 where l0: "walk (nodes s) (start s p) (butlast ?cs) = Inr l0"
      and r: "walk (nodes s) l0 [last ?cs] = Inr l1"
      by (metis walk_appendD)
    from r obtain w where d: "nodes s l0 = Some (Dir w)" by (blast dest: walk_ConsD)
    from False have "last ?cs \<noteq> []" by (rule strip_empty_last)
    with r d have "last ?cs = ''.'' \<or> last ?cs = ''..'' \<or> nodes s (l0 @ [last ?cs]) \<noteq> None"
      by (auto split: if_splits option.splits)
    with nul ne False l0 d show ?thesis
      by (auto simp: mkdir_def Let_def)
  qed
qed

lemma makedirs_existing_dir:
  assumes "path_isdir s name"
  shows "makedirs name True s = (Inr (), s)"
proof -
  from assms obtain l w where st: "stat s name = Inr (l, Dir w)"
    by (auto simp: path_isdir_def split: sum.splits prod.splits node.splits)
  from mkdir_existing [OF st] obtain e where e: "mkdir name s = (Inl e, s)" "e \<noteq> ValueError"
    by blast
  with assms have m: "mkdir_exist_ok name True s = (Inr (), s)"
    by (simp add: mkdir_exist_ok_def)
  have c: "\<not> (fst (makedirs_parts name) \<noteq> [] \<and> snd (makedirs_parts name) \<noteq> []
         \<and> \<not> path_exists s (fst (makedirs_parts name)))"
    using makedirs_head_exists [OF st] by blast
  show ?thesis
    by (subst makedirs.simps, subst if_not_P [OF c], rule m)
qed

lemma last_components: "last (components p) = snd (path_split p)"
proof (cases p rule: path_split_cases)
  case bare
  then show ?thesis by (simp add: components_nosep)
next
  case (slashes k t)
  have "components p = replicate (Suc k) [] @ [t]"
    unfolding slashes(1) using slashes(2) by (rule components_slashes)
  with slashes show ?thesis by simp
next
  case (proper h k t)
  have "components p = components h @ (replicate k [] @ [t])"
    unfolding proper(1) using proper(2) by (rule components_proper)
  with proper show ?thesis by simp
qed

definition example_old_fs :: filesystem where
  "example_old_fs =
     \<lparr>nodes = [[] \<mapsto> Dir False, [''work''] \<mapsto> Dir True, [''work'', ''docs''] \<mapsto> Dir False,
               [''work'', ''docs'', ''int.md''] \<mapsto> File True ''old text, not a stub''],
      cwd = [''work''], free = 100\<rparr>"

lemma makedirs_dirname_of_file:
  assumes st: "stat s path = Inr (l, n)"
    and c: "last (components path) \<noteq> []"
    and d: "dirname path \<noteq> []"
  shows "makedirs (dirname path) True s = (Inr (), s)"
proof -
  from c have "snd (path_split path) \<noteq> []" by (simp add: last_components)
  with d have "path_isdir s (fst (path_split path))"
    by (intro stat_split_head_isdir [OF st]) (simp_all add: dirname_def)
  then show ?thesis
    unfolding dirname_def by (rule makedirs_existing_dir)
qed

section \<open>The claims\<close>

text \<open>
  C1. Whenever \<^verbatim>\<open>create_stub_file(path, title)\<close> succeeds, reading the file at \<^verbatim>\<open>path\<close>
  afterwards gives exactly the bytes \<^verbatim>\<open>"# " + title + "\n\n## Overview\n\n## Usage\n\n##
  Examples\n\n## Related Types\n\n"\<close>: the title as it was given, every header followed by
  an empty line, and nothing else.
\<close>

theorem stub_content_exact:
  "create_stub_file path title s = (Inr (), s') \<Longrightarrow>
     read_file s' path =
       Inr (''# '' @ title @ ''\<newline>\<newline>## Overview\<newline>\<newline>## Usage\<newline>\<newline>## Examples\<newline>\<newline>## Related Types\<newline>\<newline>'')"
proof -
  assume "create_stub_file path title s = (Inr (), s')"
  from create_stub_file_stat [OF this] obtain f where
    "stat s' path = Inr (f, File True (stub_text title))" by blast
  then show ?thesis by (simp add: read_file_def stub_text_def)
qed

theorem stub_content_exact_witness:
  "fst (create_stub_file ''a/b/Int.md'' ''Int'' example_fs) = Inr () \<and>
   read_file (snd (create_stub_file ''a/b/Int.md'' ''Int'' example_fs)) ''a/b/Int.md'' =
     Inr ''# Int\<newline>\<newline>## Overview\<newline>\<newline>## Usage\<newline>\<newline>## Examples\<newline>\<newline>## Related Types\<newline>\<newline>''"
proof -
  have ok: "fst (create_stub_file ''a/b/Int.md'' ''Int'' example_fs) = Inr ()"
    by (simp add: fs_eval)
  then have "create_stub_file ''a/b/Int.md'' ''Int'' example_fs =
      (Inr (), snd (create_stub_file ''a/b/Int.md'' ''Int'' example_fs))"
    by (simp add: prod_eq_iff)
  from stub_content_exact [OF this] ok show ?thesis by simp
qed

text \<open>
  C10. A path with no directory part is outside what \<^verbatim>\<open>create_stub_file\<close> accepts: when
  \<^verbatim>\<open>os.path.dirname(path)\<close> is the empty string, \<^verbatim>\<open>os.makedirs('')\<close> raises
  \<^verbatim>\<open>FileNotFoundError\<close> and the file system is left as it was, so no file is created,
  also where opening \<^verbatim>\<open>path\<close> for writing would have worked.
\<close>

theorem bare_filename_fails:
  "dirname path = [] \<Longrightarrow> create_stub_file path title s = (Inl FileNotFoundError, s)"
  by (simp add: create_stub_file_def io_seq_def io_bind_def makedirs_empty)

theorem bare_filename_fails_witness:
  "dirname ''int.md'' = [] \<and>
   create_stub_file ''int.md'' ''int'' example_fs = (Inl FileNotFoundError, example_fs) \<and>
   fst (open_w ''int.md'' example_fs) = Inr [''work'', ''int.md'']"
proof -
  have d: "dirname ''int.md'' = []" by (simp add: fs_eval)
  have "fst (open_w ''int.md'' example_fs) = Inr [''work'', ''int.md'']"
    by (simp add: fs_eval)
  with d bare_filename_fails [OF d, of "''int''" example_fs] show ?thesis by simp
qed

text \<open>
  C4. When \<^verbatim>\<open>os.stat(path)\<close> finds a regular file, with whatever bytes, and
  \<^verbatim>\<open>create_stub_file(path, title)\<close> succeeds, then the file at that location holds the
  template and nothing of the old bytes, every other node is as before, and the old bytes
  have been given back to the device: the file is emptied and written, not merged and not
  appended to.
\<close>

theorem existing_file_replaced:
  assumes st: "stat s path = Inr (l, File w old)"
    and ok: "create_stub_file path title s = (Inr (), s')"
  shows "nodes s' = (nodes s)(l \<mapsto> File w (stub_text title))
     \<and> free s' + length (stub_text title) = free s + length old
     \<and> read_file s' path = Inr (stub_text title)"
proof -
  from create_stub_file_InrD [OF ok] obtain s1 l0 w0 old' where
    m: "makedirs (dirname path) True s = (Inr (), s1)" and
    l0: "walk (nodes s1) (start s1 path) (butlast (components path)) = Inr l0" and
    d: "nodes s1 l0 = Some (Dir w0)" and
    c: "last (components path) \<noteq> []" "last (components path) \<noteq> ''.''"
       "last (components path) \<noteq> ''..''" and
    k: "(nodes s1 (l0 @ [last (components path)]) = None \<and> w0 \<and> old' = [])
        \<or> nodes s1 (l0 @ [last (components path)]) = Some (File True old')" and
    len: "length (stub_text title) \<le> free s1 + length old'" and
    s': "s' = s1\<lparr>nodes := (nodes s1)(l0 @ [last (components path)] \<mapsto> File True (stub_text title)),
               free := free s1 + length old' - length (stub_text title)\<rparr>"
    by blast
  have dn: "dirname path \<noteq> []"
  proof
    assume "dirname path = []"
    with m show False by (simp add: makedirs_empty)
  qed
  from makedirs_dirname_of_file [OF st c(1) dn] m have s1: "s1 = s" by simp
  from stat_InrD [OF st] have wk: "walk (nodes s) (start s path) (components path) = Inr l"
    and n: "nodes s l = Some (File w old)" by simp_all
  from wk have "walk (nodes s) (start s path) (butlast (components path) @ [last (components path)]) = Inr l"
    by (simp add: components_nonempty)
  with l0 s1 have "walk (nodes s) l0 [last (components path)] = Inr l"
    by (simp add: walk_append)
  with d c s1 have l: "l = l0 @ [last (components path)]"
    by (auto split: option.splits)
  with k n s1 have o: "old' = old" and w: "w = True" by auto
  have rd: "read_file s' path = Inr (stub_text title)"
    using create_stub_file_stat [OF ok] by (auto simp: read_file_def)
  from s' s1 l o w len rd show ?thesis by simp
qed

theorem existing_file_replaced_witness:
  "stat example_old_fs ''docs/int.md'' =
     Inr ([''work'', ''docs'', ''int.md''], File True ''old text, not a stub'') \<and>
   fst (create_stub_file ''docs/int.md'' ''int'' example_old_fs) = Inr () \<and>
   nodes (snd (create_stub_file ''docs/int.md'' ''int'' example_old_fs)) =
     (nodes example_old_fs)([''work'', ''docs'', ''int.md''] \<mapsto> File True (stub_text ''int'')) \<and>
   free (snd (create_stub_file ''docs/int.md'' ''int'' example_old_fs)) + length (stub_text ''int'')
     = free example_old_fs + length ''old text, not a stub'' \<and>
   read_file (snd (create_stub_file ''docs/int.md'' ''int'' example_old_fs)) ''docs/int.md''
     = Inr (stub_text ''int'')"
proof -
  have st: "stat example_old_fs ''docs/int.md'' =
     Inr ([''work'', ''docs'', ''int.md''], File True ''old text, not a stub'')"
    by (simp add: fs_eval example_old_fs_def)
  have f: "fst (create_stub_file ''docs/int.md'' ''int'' example_old_fs) = Inr ()"
    by (simp add: fs_eval example_old_fs_def)
  then have ok: "create_stub_file ''docs/int.md'' ''int'' example_old_fs =
      (Inr (), snd (create_stub_file ''docs/int.md'' ''int'' example_old_fs))"
    by (simp add: prod_eq_iff)
  from existing_file_replaced [OF st ok] st f show ?thesis by blast
qed

end
